theory Spec2Isabelle
  imports Main
begin

section \<open>Values, outcomes and nodes\<close>

text \<open>
  The combinators of \<^verbatim>\<open>async_btree/control.py\<close> work on zero-argument awaitables.
  Awaiting one either returns a Python value or raises; it may also change the world
  around it (a leaf has arbitrary side effects, and the same leaf may answer differently
  the next time it is awaited). A node is therefore a function from the state of the
  world to an outcome and the next state. The state type is a parameter: the
  combinators never look at it.

  \<open>exn\<close> stands for an instance of Python's \<^verbatim>\<open>Exception\<close>, the class both handlers of
  the source name (\<^verbatim>\<open>except Exception as e\<close>). Interpreter-exit signals that are not
  instances of it (\<^verbatim>\<open>KeyboardInterrupt\<close>, \<^verbatim>\<open>SystemExit\<close>) are outside the model.
\<close>

datatype exn = Exception string

text \<open>
  Modelled from the spec: \<^verbatim>\<open>ControlFlowException\<close> is imported from \<^verbatim>\<open>.common\<close>, which is
  not among the sources. The spec describes it as the Failure that carries a captured
  error, wrapped so that the error's identity is kept without being raised again. It is
  the last constructor of \<open>val\<close>; the other constructors are the Python values a leaf
  can return.
\<close>

datatype val =
    PyNone
  | PyBool bool
  | PyInt int
  | PyStr string
  | PyList "val list"
  | ControlFlowException exn

text \<open>
  The source tests results with \<^verbatim>\<open>if last_result:\<close> and \<^verbatim>\<open>while await condition_eval():\<close>,
  that is by Python truthiness: a Success is a truthy value, a Failure a falsy one.
  A \<^verbatim>\<open>ControlFlowException\<close> is a Failure, hence falsy.
\<close>

fun truthy :: "val \<Rightarrow> bool" where
  "truthy PyNone = False"
| "truthy (PyBool b) = b"
| "truthy (PyInt i) = (i \<noteq> 0)"
| "truthy (PyStr s) = (s \<noteq> [])"
| "truthy (PyList xs) = (xs \<noteq> [])"
| "truthy (ControlFlowException e) = False"

text \<open>
  Modelled from the spec: \<^verbatim>\<open>FAILURE\<close> is imported from \<^verbatim>\<open>.common\<close>, which is not among the
  sources. The spec calls it the generic Failure, a failure marker with no underlying
  error; the test \<^verbatim>\<open>tests/test_parallele.py\<close> uses it as a falsy return value.
  \<^verbatim>\<open>SUCCESS\<close> is its truthy counterpart.
\<close>

definition SUCCESS :: val where
  "SUCCESS = PyBool True"

definition FAILURE :: val where
  "FAILURE = PyBool False"

datatype outcome = Return val | Raise exn

type_synonym 's node = "'s \<Rightarrow> outcome \<times> 's"

text \<open>
  Modelled from the spec: \<^verbatim>\<open>node_metadata\<close> is imported from \<^verbatim>\<open>.common\<close>, which is not
  among the sources. The spec keeps the metadata attached to a node (name, edges,
  properties) apart from evaluation: the decorated node evaluates as the node itself.
\<close>

definition node_metadata :: "'a \<Rightarrow> 'a" where
  "node_metadata f = f"

text \<open>
  Modelled from the spec: \<^verbatim>\<open>is_success\<close> is imported from \<^verbatim>\<open>.decorator\<close>, which is not
  among the sources. By the spec the loop of \<^verbatim>\<open>repeat_until\<close> continues while the
  condition reports Success and ends the first time it reports Failure: the wrapped
  node answers \<^verbatim>\<open>SUCCESS\<close> when the condition's value is truthy and \<^verbatim>\<open>FAILURE\<close> otherwise.
  By the spec's invariant on results, an error raised while a node is evaluated is
  caught and counts as a Failure, never propagated: a condition that raises reports
  Failure.
\<close>

definition is_success :: "'s node \<Rightarrow> 's node" where
  "is_success child = node_metadata (\<lambda>w.
     case child w of
       (Return v, w') \<Rightarrow> (Return (if truthy v then SUCCESS else FAILURE), w')
     | (Raise e, w') \<Rightarrow> (Return FAILURE, w'))"

section \<open>sequence, fallback, selector\<close>

text \<open>
  The handler shared by \<^verbatim>\<open>_sequence\<close> and \<^verbatim>\<open>_repeat_until\<close>:
  \<^verbatim>\<open>
  try:
      last_result = await child()
  except Exception as e:
      last_result = ControlFlowException(e)
  \<close>
\<close>

definition try_await :: "'s node \<Rightarrow> 's \<Rightarrow> val \<times> 's" where
  "try_await child w =
     (case child w of
        (Return v, w') \<Rightarrow> (v, w')
      | (Raise e, w') \<Rightarrow> (ControlFlowException e, w'))"

text \<open>
  The \<^verbatim>\<open>for child in children\<close> loop of \<^verbatim>\<open>_sequence\<close>, with its local variables
  \<^verbatim>\<open>success\<close>, \<^verbatim>\<open>failure\<close> and \<^verbatim>\<open>results\<close> as accumulators. The loop leaves through one
  of its two \<^verbatim>\<open>return\<close> statements (\<open>Some\<close> of the returned value) or runs out of
  children and falls through to the code after it (\<open>None\<close>).
\<close>

fun for_children ::
  "'s node list \<Rightarrow> int \<Rightarrow> int \<Rightarrow> int \<Rightarrow> int \<Rightarrow> val list \<Rightarrow> 's \<Rightarrow> val option \<times> 's" where
  "for_children [] succes_threshold failure_threshold success failure results w = (None, w)"
| "for_children (child # rest) succes_threshold failure_threshold success failure results w =
     (case try_await child w of
        (last_result, w') \<Rightarrow>
          if truthy last_result then
            (if success + 1 = succes_threshold
             then (Some (PyList (results @ [last_result])), w')
             else for_children rest succes_threshold failure_threshold
                    (success + 1) failure (results @ [last_result]) w')
          else
            (if failure + 1 = failure_threshold
             then (Some last_result, w')
             else for_children rest succes_threshold failure_threshold
                    success (failure + 1) (results @ [last_result]) w'))"

text \<open>
  \<^verbatim>\<open>_sequence\<close>: the loop, then the line marked \<^verbatim>\<open># should be never reached\<close>,
  \<^verbatim>\<open>return FAILURE\<close>.
\<close>

definition sequence_inner :: "'s node list \<Rightarrow> int \<Rightarrow> int \<Rightarrow> 's node" where
  "sequence_inner children succes_threshold failure_threshold w =
     (case for_children children succes_threshold failure_threshold 0 0 [] w of
        (Some v, w') \<Rightarrow> (Return v, w')
      | (None, w') \<Rightarrow> (Return FAILURE, w'))"

datatype construction_error = AssertionError

text \<open>
  \<^verbatim>\<open>sequence(children, succes_threshold=None)\<close>. The first line of the source,
  \<^verbatim>\<open>succes_threshold = succes_threshold if succes_threshold else len(children)\<close>,
  tests the argument for truthiness: both \<^verbatim>\<open>None\<close> and \<^verbatim>\<open>0\<close> are replaced by the number
  of children. The \<^verbatim>\<open>assert\<close> that follows fails construction.
\<close>

definition sequence :: "'s node list \<Rightarrow> int option \<Rightarrow> construction_error + 's node" where
  "sequence children succes_threshold =
     (let succes_threshold =
            (case succes_threshold of
               None \<Rightarrow> int (length children)
             | Some t \<Rightarrow> if t \<noteq> 0 then t else int (length children))
      in if 0 \<le> succes_threshold \<and> succes_threshold \<le> int (length children)
         then (let failure_threshold = int (length children) - succes_threshold + 1
               in Inr (node_metadata (sequence_inner children succes_threshold failure_threshold)))
         else Inl AssertionError)"

definition fallback :: "'s node list \<Rightarrow> construction_error + 's node" where
  "fallback children =
     map_sum id node_metadata (sequence children (Some (min 1 (int (length children)))))"

definition selector :: "'s node list \<Rightarrow> construction_error + 's node" where
  "selector children = map_sum id node_metadata (fallback children)"

section \<open>decision\<close>

text \<open>
  \<^verbatim>\<open>
  if await condition():
      return await success_tree()
  return await failure_tree() if failure_tree else FAILURE
  \<close>
  No \<^verbatim>\<open>await\<close> of \<^verbatim>\<open>_decision\<close> stands inside a \<^verbatim>\<open>try\<close>: what a node raises leaves
  \<^verbatim>\<open>_decision\<close>. An absent \<^verbatim>\<open>failure_tree\<close> is \<^verbatim>\<open>None\<close>.
\<close>

definition decision :: "'s node \<Rightarrow> 's node \<Rightarrow> 's node option \<Rightarrow> 's node" where
  "decision condition success_tree failure_tree = node_metadata (\<lambda>w.
     case condition w of
       (Raise e, w') \<Rightarrow> (Raise e, w')
     | (Return c, w') \<Rightarrow>
         if truthy c then success_tree w'
         else (case failure_tree of
                 Some failure_node \<Rightarrow> failure_node w'
               | None \<Rightarrow> (Return FAILURE, w')))"

section \<open>repeat\_until\<close>

text \<open>
  The \<^verbatim>\<open>while await condition_eval():\<close> loop of \<^verbatim>\<open>_repeat_until\<close> with its local
  variable \<^verbatim>\<open>result\<close>. Nothing bounds the number of rounds, so the loop is a partial
  function: \<open>None\<close> is a loop that never ends. The \<^verbatim>\<open>await\<close> of the condition is
  outside the \<^verbatim>\<open>try\<close>; the one of the child is inside.
\<close>

partial_function (option) while_condition_eval ::
  "'s node \<Rightarrow> 's node \<Rightarrow> val \<Rightarrow> 's \<Rightarrow> (outcome \<times> 's) option" where
  "while_condition_eval condition_eval child result w =
     (case condition_eval w of
        (Raise e, w') \<Rightarrow> Some (Raise e, w')
      | (Return c, w') \<Rightarrow>
          if truthy c
          then (case try_await child w' of
                  (result', w'') \<Rightarrow> while_condition_eval condition_eval child result' w'')
          else Some (Return result, w'))"

definition repeat_until :: "'s node \<Rightarrow> 's node \<Rightarrow> 's \<Rightarrow> (outcome \<times> 's) option" where
  "repeat_until condition child =
     node_metadata (while_condition_eval (is_success condition) child FAILURE)"

section \<open>Observing evaluations\<close>

text \<open>
  To say which nodes an evaluation awaited, and in which order, a node is given a label
  and made to write it to a log each time it is awaited. The log is part of the state,
  which the combinators pass along without looking at it.
\<close>

definition traced :: "'l \<Rightarrow> 's node \<Rightarrow> ('s \<times> 'l list) node" where
  "traced l child = (\<lambda>(w, log).
     case child w of (r, w') \<Rightarrow> (r, (w', log @ [l])))"

fun traced_from :: "nat \<Rightarrow> 's node list \<Rightarrow> ('s \<times> nat list) node list" where
  "traced_from i [] = []"
| "traced_from i (child # rest) = traced i child # traced_from (Suc i) rest"

text \<open>
  The reference run: every child of the list awaited once, in order, each under the
  handler of \<^verbatim>\<open>_sequence\<close>; the recorded results and the last state.
\<close>

fun run_children :: "'s node list \<Rightarrow> 's \<Rightarrow> val list \<times> 's" where
  "run_children [] w = ([], w)"
| "run_children (child # rest) w =
     (case try_await child w of
        (v, w') \<Rightarrow> (case run_children rest w' of (vs, w'') \<Rightarrow> (v # vs, w'')))"

text \<open>
  The running counts of \<^verbatim>\<open>_sequence\<close>, read off a list of recorded results: how many of
  them are Successes and how many are Failures.
\<close>

definition successes :: "val list \<Rightarrow> int" where
  "successes rs = int (length (filter truthy rs))"

definition failures :: "val list \<Rightarrow> int" where
  "failures rs = int (length (filter (\<lambda>r. \<not> truthy r) rs))"

text \<open>
  Building a node and evaluating it once, as \<^verbatim>\<open>kernel.run(sequence(children=...))\<close> does in
  the tests: a failed construction yields its error, a built node its outcome and the
  next state.
\<close>

definition run :: "construction_error + 's node \<Rightarrow> 's \<Rightarrow> construction_error + outcome \<times> 's" where
  "run built w = map_sum id (\<lambda>nd. nd w) built"

text \<open>
  One round of the loop of \<^verbatim>\<open>_repeat_until\<close> whose condition check succeeded: the check,
  then the child under its handler. \<open>rounds k\<close> is \<open>k\<close> such rounds, from the current
  \<^verbatim>\<open>result\<close> and state.
\<close>

definition one_round :: "'s node \<Rightarrow> 's node \<Rightarrow> val \<times> 's \<Rightarrow> val \<times> 's" where
  "one_round condition child rw = try_await child (snd (condition (snd rw)))"

definition rounds :: "nat \<Rightarrow> 's node \<Rightarrow> 's node \<Rightarrow> val \<times> 's \<Rightarrow> val \<times> 's" where
  "rounds k condition child = (one_round condition child) ^^ k"

section \<open>Leaves used as concrete inputs\<close>

text \<open>
  Leaves in the manner of \<^verbatim>\<open>a_func\<close> and \<^verbatim>\<open>failure_func\<close> of the tests: one that returns a
  value, one that raises, and three over a counter (a condition that holds while the
  counter is below a bound, a child that returns the counter and increments it, and a
  child that raises on its first evaluation only).
\<close>

definition leaf_return :: "val \<Rightarrow> 's node" where
  "leaf_return v w = (Return v, w)"

definition leaf_raise :: "exn \<Rightarrow> 's node" where
  "leaf_raise e w = (Raise e, w)"

definition counter_below :: "nat \<Rightarrow> nat node" where
  "counter_below n w = (Return (PyBool (w < n)), w)"

definition tick :: "nat node" where
  "tick w = (Return (PyInt (int w)), Suc w)"

definition raise_at_zero :: "nat node" where
  "raise_at_zero w =
     (if w = 0 then (Raise (Exception ''boom''), Suc w) else (Return (PyInt (int w)), Suc w))"

section \<open>Auxiliary facts\<close>

lemma truthy_FAILURE: "\<not> truthy FAILURE"
  by (simp add: FAILURE_def)

subsection \<open>Traced children and the reference run\<close>

lemma length_traced_from: "length (traced_from i cs) = length cs"
  by (induction cs arbitrary: i) simp_all

lemma take_traced_from: "take k (traced_from i cs) = traced_from i (take k cs)"
  by (induction cs arbitrary: i k) (simp_all add: take_Cons split: nat.splits)

lemma try_await_traced:
  "try_await (traced l child) (w, log) = (fst (try_await child w), (snd (try_await child w), log @ [l]))"
  by (simp add: try_await_def traced_def split: prod.splits outcome.splits)

lemma fst_run_children_Cons:
  "fst (run_children (c # cs) w) = fst (try_await c w) # fst (run_children cs (snd (try_await c w)))"
  by (simp split: prod.splits)

lemma snd_run_children_Cons:
  "snd (run_children (c # cs) w) = snd (run_children cs (snd (try_await c w)))"
  by (simp split: prod.splits)

lemma upt_shift: "[i..<i + Suc n] = i # [Suc i..<Suc i + n]"
  by (simp add: upt_rec)

lemma run_children_traced_from:
  "run_children (traced_from i cs) (w, log)
   = (fst (run_children cs w), (snd (run_children cs w), log @ [i..<i + length cs]))"
proof (induction cs arbitrary: i w log)
  case Nil
  then show ?case by simp
next
  case (Cons c cs)
  show ?case
    using upt_shift [of i "length cs"]
    by (simp add: try_await_traced Cons.IH split: prod.splits del: upt_Suc)
qed

lemma length_run_children: "length (fst (run_children cs w)) = length cs"
  by (induction cs arbitrary: w) (simp_all add: fst_run_children_Cons del: run_children.simps(2))

lemma for_children_all_succeed:
  "st = success + int (length cs) \<Longrightarrow> list_all truthy (fst (run_children cs w)) \<Longrightarrow>
   for_children cs st 1 success 0 results w
   = (if cs = [] then None else Some (PyList (results @ fst (run_children cs w))),
      snd (run_children cs w))"
proof (induction cs arbitrary: success results w)
  case Nil
  then show ?case by simp
next
  case (Cons c cs)
  obtain v w' where c: "try_await c w = (v, w')" by (cases "try_await c w")
  with Cons.prems have v: "truthy v" and rest: "list_all truthy (fst (run_children cs w'))"
    by (simp_all split: prod.splits)
  show ?case
  proof (cases "cs = []")
    case True
    with Cons.prems c v show ?thesis by simp
  next
    case False
    with Cons.prems have "success + 1 \<noteq> st" by (cases cs) simp_all
    moreover have "st = (success + 1) + int (length cs)" using Cons.prems by simp
    ultimately show ?thesis
      using Cons.IH [OF _ rest, of "success + 1" "results @ [v]"] c v False
      by (simp split: prod.splits)
  qed
qed

lemma for_children_first_failure:
  "k < length cs \<Longrightarrow> st = success + int (length cs) \<Longrightarrow>
   \<forall>j<k. truthy (fst (run_children cs w) ! j) \<Longrightarrow>
   \<not> truthy (fst (run_children cs w) ! k) \<Longrightarrow>
   for_children cs st 1 success 0 results w
   = (Some (fst (run_children cs w) ! k), snd (run_children (take (Suc k) cs) w))"
proof (induction cs arbitrary: k success results w)
  case Nil
  then show ?case by simp
next
  case (Cons c cs)
  obtain v w' where c: "try_await c w = (v, w')" by (cases "try_await c w")
  show ?case
  proof (cases k)
    case 0
    with Cons.prems c show ?thesis by (simp split: prod.splits)
  next
    case (Suc k')
    with Cons.prems c have v: "truthy v" by (auto split: prod.splits)
    from Suc Cons.prems have k': "k' < length cs" by simp
    then have "0 < length cs" by (cases cs) simp_all
    then have ne: "success + 1 \<noteq> st" using Cons.prems(2) by simp
    have st: "st = (success + 1) + int (length cs)" using Cons.prems by simp
    have a: "\<forall>j<k'. truthy (fst (run_children cs w') ! j)"
    proof (intro allI impI)
      fix j assume "j < k'"
      then have "Suc j < k" using Suc by simp
      with Cons.prems(3) have "truthy (fst (run_children (c # cs) w) ! Suc j)" by blast
      then show "truthy (fst (run_children cs w') ! j)" using c by (simp split: prod.splits)
    qed
    have b: "\<not> truthy (fst (run_children cs w') ! k')"
      using Cons.prems(4) Suc c by (simp split: prod.splits)
    show ?thesis
      using Cons.IH [OF k' st a b, of "results @ [v]"] c v ne Suc
      by (simp split: prod.splits)
  qed
qed

lemma first_falsy:
  "\<not> list_all truthy rs \<Longrightarrow> \<exists>k<length rs. (\<forall>j<k. truthy (rs ! j)) \<and> \<not> truthy (rs ! k)"
proof (induction rs)
  case Nil
  then show ?case by simp
next
  case (Cons r rs)
  show ?case
  proof (cases "truthy r")
    case False
    then have "0 < length (r # rs) \<and> (\<forall>j<0. truthy ((r # rs) ! j)) \<and> \<not> truthy ((r # rs) ! 0)"
      by simp
    then show ?thesis by blast
  next
    case True
    with Cons.prems have "\<not> list_all truthy rs" by simp
    from Cons.IH [OF this] obtain k where
      k: "k < length rs" "\<forall>j<k. truthy (rs ! j)" "\<not> truthy (rs ! k)" by blast
    have "\<forall>j<Suc k. truthy ((r # rs) ! j)"
    proof (intro allI impI)
      fix j assume "j < Suc k"
      then show "truthy ((r # rs) ! j)" using True k(2) by (cases j) simp_all
    qed
    with k(1) k(3) have "Suc k < length (r # rs) \<and> (\<forall>j<Suc k. truthy ((r # rs) ! j))
        \<and> \<not> truthy ((r # rs) ! Suc k)" by simp
    then show ?thesis by blast
  qed
qed


lemma run_sequence_default:
  "children \<noteq> [] \<Longrightarrow>
   run (sequence children None) w
   = Inr (sequence_inner children (int (length children)) 1 w)"
  by (simp add: run_def sequence_def node_metadata_def)


lemma traced_from_eq_Nil: "traced_from i cs = [] \<longleftrightarrow> cs = []"
  by (cases cs) simp_all

lemma sequence_inner_all_succeed:
  assumes "children \<noteq> []" and "list_all truthy (fst (run_children children w))"
  shows "sequence_inner (traced_from i children) (int (length children)) 1 (w, log)
      = (Return (PyList (fst (run_children children w))),
         (snd (run_children children w), log @ [i..<i + length children]))"
proof -
  let ?tc = "traced_from i children"
  have rc: "run_children ?tc (w, log)
      = (fst (run_children children w), (snd (run_children children w), log @ [i..<i + length children]))"
    by (rule run_children_traced_from)
  have "for_children ?tc (int (length children)) 1 0 0 [] (w, log)
      = (if ?tc = [] then None else Some (PyList ([] @ fst (run_children ?tc (w, log)))),
         snd (run_children ?tc (w, log)))"
    by (rule for_children_all_succeed) (simp_all add: length_traced_from rc assms(2))
  then show ?thesis
    using assms(1) by (simp add: sequence_inner_def rc traced_from_eq_Nil)
qed


lemma sequence_inner_first_failure:
  assumes "k < length children"
    and "\<forall>j<k. truthy (fst (run_children children w) ! j)"
    and "\<not> truthy (fst (run_children children w) ! k)"
  shows "sequence_inner (traced_from i children) (int (length children)) 1 (w, log)
      = (Return (fst (run_children children w) ! k),
         (snd (run_children (take (Suc k) children) w), log @ [i..<i + Suc k]))"
proof -
  let ?tc = "traced_from i children"
  have rc: "run_children ?tc (w, log)
      = (fst (run_children children w), (snd (run_children children w), log @ [i..<i + length children]))"
    by (rule run_children_traced_from)
  have len: "length (take (Suc k) children) = Suc k"
    using assms(1) by simp
  have rk: "run_children (take (Suc k) ?tc) (w, log)
      = (fst (run_children (take (Suc k) children) w),
         (snd (run_children (take (Suc k) children) w), log @ [i..<i + Suc k]))"
    unfolding take_traced_from
    using run_children_traced_from [of i "take (Suc k) children" w log]
    unfolding len .
  have "for_children ?tc (int (length children)) 1 0 0 [] (w, log)
      = (Some (fst (run_children ?tc (w, log)) ! k), snd (run_children (take (Suc k) ?tc) (w, log)))"
    by (rule for_children_first_failure) (simp_all add: length_traced_from rc assms)
  then show ?thesis
    by (simp add: sequence_inner_def rc rk del: take_Suc_Cons upt_Suc)
qed

subsection \<open>The thresholds of sequence\<close>

text \<open>
  With a success threshold in \<open>[1, n]\<close> and the failure threshold \<open>n - s + 1\<close> derived
  from it, the loop of \<^verbatim>\<open>_sequence\<close> always leaves through one of its two \<^verbatim>\<open>return\<close>
  statements: at the first child \<open>k\<close> whose result brings the success count to \<open>s\<close> or
  the failure count to \<open>n - s + 1\<close>, never both, with the list of the results so far in
  the first case and the result of child \<open>k\<close> in the second.
\<close>

lemma successes_simps:
  "successes [] = 0"
  "successes (v # rs) = (if truthy v then 1 else 0) + successes rs"
  by (simp_all add: successes_def)

lemma failures_simps:
  "failures [] = 0"
  "failures (v # rs) = (if truthy v then 0 else 1) + failures rs"
  by (simp_all add: failures_def)

lemma for_children_returns:
  "success < st \<Longrightarrow> failure < ft \<Longrightarrow> st - success + (ft - failure) \<le> int (length cs) + 1 \<Longrightarrow>
   \<exists>v. fst (for_children cs st ft success failure results w) = Some v"
proof (induction cs arbitrary: success failure results w)
  case Nil
  then show ?case by simp
next
  case (Cons c cs)
  obtain v w1 where t: "try_await c w = (v, w1)" by (cases "try_await c w")
  show ?case
  proof (cases "truthy v")
    case True
    show ?thesis
    proof (cases "success + 1 = st")
      case True
      with \<open>truthy v\<close> t show ?thesis by simp
    next
      case False
      with Cons.prems have "success + 1 < st" "failure < ft"
        "st - (success + 1) + (ft - failure) \<le> int (length cs) + 1" by simp_all
      from Cons.IH [OF this] False \<open>truthy v\<close> t show ?thesis by simp
    qed
  next
    case notv: False
    show ?thesis
    proof (cases "failure + 1 = ft")
      case True
      with notv t show ?thesis by simp
    next
      case False
      with Cons.prems have "success < st" "failure + 1 < ft"
        "st - success + (ft - (failure + 1)) \<le> int (length cs) + 1" by simp_all
      from Cons.IH [OF this] False notv t show ?thesis by simp
    qed
  qed
qed

lemma valid_thresholds_always_return:
  assumes "children \<noteq> []" and "sequence children thr = Inr nd"
  shows "\<exists>st. 1 \<le> st \<and> st \<le> int (length children)
     \<and> nd = sequence_inner children st (int (length children) - st + 1)
     \<and> (\<forall>w. \<exists>v. fst (for_children children st (int (length children) - st + 1) 0 0 [] w) = Some v)"
proof -
  let ?n = "int (length children)"
  let ?st = "case thr of None \<Rightarrow> ?n | Some t \<Rightarrow> if t \<noteq> 0 then t else ?n"
  have n: "1 \<le> ?n" using assms(1) by (cases children) simp_all
  from assms(2) have valid: "0 \<le> ?st \<and> ?st \<le> ?n"
      and nd: "nd = sequence_inner children ?st (?n - ?st + 1)"
    by (simp_all add: sequence_def node_metadata_def Let_def split: if_splits)
  have pos: "1 \<le> ?st" using valid n by (cases thr) (auto split: if_splits)
  have "\<exists>v. fst (for_children children ?st (?n - ?st + 1) 0 0 [] w) = Some v" for w
    by (rule for_children_returns) (use pos valid in simp_all)
  with pos valid nd show ?thesis by blast
qed


lemma for_children_threshold_trigger:
  assumes "success < st" and "failure < ft"
    and "st - success + (ft - failure) \<le> int (length cs) + 1"
  shows "\<exists>k<length cs. \<exists>rs w'. run_children (take (Suc k) cs) w = (rs, w')
     \<and> (\<forall>j<k. success + successes (take (Suc j) rs) < st
               \<and> failure + failures (take (Suc j) rs) < ft)
     \<and> (if truthy (rs ! k)
         then success + successes rs = st \<and> failure + failures rs < ft
            \<and> for_children cs st ft success failure results w = (Some (PyList (results @ rs)), w')
         else failure + failures rs = ft \<and> success + successes rs < st
            \<and> for_children cs st ft success failure results w = (Some (rs ! k), w'))"
  using assms
proof (induction cs arbitrary: success failure results w)
  case Nil
  then show ?case by simp
next
  case (Cons c cs)
  obtain v w1 where t: "try_await c w = (v, w1)" by (cases "try_await c w")
  have first: "run_children (take (Suc 0) (c # cs)) w = ([v], w1)"
    by (simp add: t)
  have stop: ?case
    if "if truthy v then success + 1 = st else failure + 1 = ft"
  proof -
    have "0 < length (c # cs)" by simp
    moreover have "run_children (take (Suc 0) (c # cs)) w = ([v], w1)" by (rule first)
    moreover have "\<forall>j<(0::nat). success + successes (take (Suc j) [v]) < st
               \<and> failure + failures (take (Suc j) [v]) < ft" by simp
    moreover have "if truthy ([v] ! 0)
         then success + successes [v] = st \<and> failure + failures [v] < ft
            \<and> for_children (c # cs) st ft success failure results w
                = (Some (PyList (results @ [v])), w1)
         else failure + failures [v] = ft \<and> success + successes [v] < st
            \<and> for_children (c # cs) st ft success failure results w = (Some ([v] ! 0), w1)"
      using that Cons.prems(1,2) by (simp add: t successes_simps failures_simps)
    ultimately show ?thesis by blast
  qed
  have go: ?case
    if cont: "if truthy v then success + 1 \<noteq> st else failure + 1 \<noteq> ft"
  proof -
    let ?s = "if truthy v then success + 1 else success"
    let ?f = "if truthy v then failure else failure + 1"
    have loop: "for_children (c # cs) st ft success failure results w
        = for_children cs st ft ?s ?f (results @ [v]) w1"
      using cont by (simp add: t)
    have "?s < st" "?f < ft" "st - ?s + (ft - ?f) \<le> int (length cs) + 1"
      using cont Cons.prems by (simp_all split: if_splits)
    from Cons.IH [OF this, where results = "results @ [v]" and w = w1]
    obtain k rs w' where k: "k < length cs"
      and rs: "run_children (take (Suc k) cs) w1 = (rs, w')"
      and before: "\<forall>j<k. ?s + successes (take (Suc j) rs) < st
               \<and> ?f + failures (take (Suc j) rs) < ft"
      and at: "if truthy (rs ! k)
         then ?s + successes rs = st \<and> ?f + failures rs < ft
            \<and> for_children cs st ft ?s ?f (results @ [v]) w1
                = (Some (PyList ((results @ [v]) @ rs)), w')
         else ?f + failures rs = ft \<and> ?s + successes rs < st
            \<and> for_children cs st ft ?s ?f (results @ [v]) w1 = (Some (rs ! k), w')"
      by blast
    have 1: "Suc k < length (c # cs)" using k by simp
    have 2: "run_children (take (Suc (Suc k)) (c # cs)) w = (v # rs, w')"
      using rs by (simp add: t)
    have 3: "\<forall>j<Suc k. success + successes (take (Suc j) (v # rs)) < st
               \<and> failure + failures (take (Suc j) (v # rs)) < ft"
    proof (intro allI impI)
      fix j assume j: "j < Suc k"
      show "success + successes (take (Suc j) (v # rs)) < st
               \<and> failure + failures (take (Suc j) (v # rs)) < ft"
      proof (cases j)
        case 0
        then show ?thesis
          using cont Cons.prems(1,2)
          by (auto simp: successes_simps failures_simps split: if_splits)
      next
        case (Suc i)
        with j have "i < k" by simp
        with before have "?s + successes (take (Suc i) rs) < st
               \<and> ?f + failures (take (Suc i) rs) < ft" by blast
        then show ?thesis
          using Suc by (simp add: successes_simps failures_simps split: if_splits)
      qed
    qed
    have 4: "if truthy ((v # rs) ! Suc k)
         then success + successes (v # rs) = st \<and> failure + failures (v # rs) < ft
            \<and> for_children (c # cs) st ft success failure results w
                = (Some (PyList (results @ v # rs)), w')
         else failure + failures (v # rs) = ft \<and> success + successes (v # rs) < st
            \<and> for_children (c # cs) st ft success failure results w
                = (Some ((v # rs) ! Suc k), w')"
      using at unfolding loop
      by (simp add: successes_simps failures_simps split: if_splits)
    from 1 2 3 4 show ?thesis by blast
  qed
  show ?case
  proof (cases "if truthy v then success + 1 = st else failure + 1 = ft")
    case True
    then show ?thesis by (rule stop)
  next
    case False
    then have "if truthy v then success + 1 \<noteq> st else failure + 1 \<noteq> ft"
      by (simp split: if_splits)
    then show ?thesis by (rule go)
  qed
qed


lemma run_sequence_explicit:
  assumes "1 \<le> s" and "s \<le> int (length children)"
  shows "run (sequence children (Some s)) w
     = Inr (sequence_inner children s (int (length children) - s + 1) w)"
  using assms by (simp add: run_def sequence_def node_metadata_def)

lemma sequence_threshold_trigger:
  fixes children :: "'s node list"
  assumes "1 \<le> s" and "s \<le> int (length children)"
  shows "\<exists>k<length children. \<exists>rs w'. run_children (take (Suc k) children) w = (rs, w')
     \<and> (\<forall>j<k. successes (take (Suc j) rs) < s
               \<and> failures (take (Suc j) rs) < int (length children) - s + 1)
     \<and> (if truthy (rs ! k)
         then successes rs = s \<and> failures rs < int (length children) - s + 1
            \<and> run (sequence (traced_from 0 children) (Some s)) (w, [])
                = Inr (Return (PyList rs), (w', [0..<Suc k]))
         else failures rs = int (length children) - s + 1 \<and> successes rs < s
            \<and> run (sequence (traced_from 0 children) (Some s)) (w, [])
                = Inr (Return (rs ! k), (w', [0..<Suc k])))"
proof -
  let ?tc = "traced_from 0 children"
  let ?n = "int (length children)"
  have len: "length ?tc = length children" by (rule length_traced_from)
  have "(0::int) < s" "(0::int) < ?n - s + 1" "s - 0 + (?n - s + 1 - 0) \<le> int (length ?tc) + 1"
    using assms by (simp_all add: len)
  from for_children_threshold_trigger [OF this, where results = "[]" and w = "(w, [])"]
  obtain k rs wl where k: "k < length ?tc"
    and rs: "run_children (take (Suc k) ?tc) (w, []) = (rs, wl)"
    and before: "\<forall>j<k. 0 + successes (take (Suc j) rs) < s
               \<and> 0 + failures (take (Suc j) rs) < ?n - s + 1"
    and at: "if truthy (rs ! k)
         then 0 + successes rs = s \<and> 0 + failures rs < ?n - s + 1
            \<and> for_children ?tc s (?n - s + 1) 0 0 [] (w, []) = (Some (PyList ([] @ rs)), wl)
         else 0 + failures rs = ?n - s + 1 \<and> 0 + successes rs < s
            \<and> for_children ?tc s (?n - s + 1) 0 0 [] (w, []) = (Some (rs ! k), wl)"
    by blast
  have k': "k < length children" using k by (simp only: len)
  then have lt: "length (take (Suc k) children) = Suc k" by simp
  have "run_children (take (Suc k) ?tc) (w, [])
      = (fst (run_children (take (Suc k) children) w),
         (snd (run_children (take (Suc k) children) w), [] @ [0..<0 + Suc k]))"
    unfolding take_traced_from
    using run_children_traced_from [of 0 "take (Suc k) children" w "[]"]
    unfolding lt .
  with rs have rs_eq: "rs = fst (run_children (take (Suc k) children) w)"
    and wl_eq: "wl = (snd (run_children (take (Suc k) children) w), [0..<Suc k])"
    by (simp_all del: upt_Suc take_Suc_Cons)
  have r1: "run_children (take (Suc k) children) w = (rs, snd (run_children (take (Suc k) children) w))"
    by (simp add: rs_eq)
  have run: "run (sequence ?tc (Some s)) (w, [])
      = Inr (sequence_inner ?tc s (?n - s + 1) (w, []))"
    using run_sequence_explicit [of s ?tc "(w, [])"] assms by (simp only: len)
  have 2: "\<forall>j<k. successes (take (Suc j) rs) < s
               \<and> failures (take (Suc j) rs) < ?n - s + 1"
    using before by simp
  have 3: "if truthy (rs ! k)
         then successes rs = s \<and> failures rs < ?n - s + 1
            \<and> run (sequence ?tc (Some s)) (w, [])
                = Inr (Return (PyList rs), (snd (run_children (take (Suc k) children) w), [0..<Suc k]))
         else failures rs = ?n - s + 1 \<and> successes rs < s
            \<and> run (sequence ?tc (Some s)) (w, [])
                = Inr (Return (rs ! k), (snd (run_children (take (Suc k) children) w), [0..<Suc k]))"
    using at unfolding run wl_eq
    by (simp add: sequence_inner_def split: if_splits del: upt_Suc)
  from k' r1 2 3 show ?thesis by blast
qed

subsection \<open>The loop of repeat\_until\<close>

lemma rounds_0: "rounds 0 condition child rw = rw"
  by (simp add: rounds_def)

lemma rounds_Suc: "rounds (Suc k) condition child rw = rounds k condition child (one_round condition child rw)"
  by (simp add: rounds_def funpow_swap1)

lemma rounds_Suc': "rounds (Suc k) condition child rw = one_round condition child (rounds k condition child rw)"
  by (simp add: rounds_def)

lemma is_success_Return:
  "condition w = (Return c, w') \<Longrightarrow>
   is_success condition w = (Return (if truthy c then SUCCESS else FAILURE), w')"
  by (simp add: is_success_def node_metadata_def)

lemma is_success_Raise:
  "condition w = (Raise e, w') \<Longrightarrow> is_success condition w = (Return FAILURE, w')"
  by (simp add: is_success_def node_metadata_def)

lemma while_stop:
  assumes "condition w = (Return c, w')" and "\<not> truthy c"
  shows "while_condition_eval (is_success condition) child result w = Some (Return result, w')"
  using assms
  by (subst while_condition_eval.simps) (simp add: is_success_Return FAILURE_def)

lemma while_step:
  assumes "condition w = (Return c, w')" and "truthy c"
  shows "while_condition_eval (is_success condition) child result w
     = while_condition_eval (is_success condition) child
         (fst (try_await child w')) (snd (try_await child w'))"
  using assms
  by (subst while_condition_eval.simps) (simp add: is_success_Return SUCCESS_def split: prod.splits)

lemma while_raise:
  assumes "condition w = (Raise e, w')"
  shows "while_condition_eval (is_success condition) child result w = Some (Return result, w')"
  using assms
  by (subst while_condition_eval.simps) (simp add: is_success_Raise FAILURE_def)

lemma while_rounds:
  assumes "\<forall>k<m. \<exists>c. fst (condition (snd (rounds k condition child (result, w)))) = Return c \<and> truthy c"
    and "\<exists>c. fst (condition (snd (rounds m condition child (result, w)))) = Return c \<and> \<not> truthy c"
  shows "while_condition_eval (is_success condition) child result w
     = Some (Return (fst (rounds m condition child (result, w))),
             snd (condition (snd (rounds m condition child (result, w)))))"
  using assms
proof (induction m arbitrary: result w)
  case 0
  then obtain c where "fst (condition w) = Return c" "\<not> truthy c"
    by (auto simp: rounds_0)
  then have "condition w = (Return c, snd (condition w))" "\<not> truthy c"
    by (simp_all add: prod_eq_iff)
  then show ?case
    using while_stop [of condition w c "snd (condition w)" child result] by (simp add: rounds_0)
next
  case (Suc m)
  from Suc.prems(1) have "\<exists>c. fst (condition (snd (rounds 0 condition child (result, w)))) = Return c \<and> truthy c"
    by blast
  then obtain c where "fst (condition w) = Return c" "truthy c"
    by (auto simp: rounds_0)
  then have c: "condition w = (Return c, snd (condition w))" "truthy c"
    by (simp_all add: prod_eq_iff)
  let ?rw = "one_round condition child (result, w)"
  have rw: "?rw = (fst (try_await child (snd (condition w))), snd (try_await child (snd (condition w))))"
    by (simp add: one_round_def)
  have a: "\<forall>k<m. \<exists>c. fst (condition (snd (rounds k condition child (fst ?rw, snd ?rw)))) = Return c \<and> truthy c"
  proof (intro allI impI)
    fix k assume "k < m"
    then have "Suc k < Suc m" by simp
    with Suc.prems(1) have "\<exists>c. fst (condition (snd (rounds (Suc k) condition child (result, w)))) = Return c \<and> truthy c"
      by blast
    then show "\<exists>c. fst (condition (snd (rounds k condition child (fst ?rw, snd ?rw)))) = Return c \<and> truthy c"
      by (simp only: rounds_Suc prod.collapse)
  qed
  have b: "\<exists>c. fst (condition (snd (rounds m condition child (fst ?rw, snd ?rw)))) = Return c \<and> \<not> truthy c"
    using Suc.prems(2) by (simp only: rounds_Suc prod.collapse)
  have step: "while_condition_eval (is_success condition) child result w
     = while_condition_eval (is_success condition) child (fst ?rw) (snd ?rw)"
    using while_step [of condition w c "snd (condition w)" child result] c
    by (simp add: one_round_def)
  from Suc.IH [OF a b] show ?case
    by (simp only: step rounds_Suc prod.collapse)
qed

lemma traced_apply:
  "traced l child (w, log) = (fst (child w), (snd (child w), log @ [l]))"
  by (simp add: traced_def split: prod.splits)

lemma one_round_traced:
  "one_round (traced c condition) (traced ch child) (r, (w, log))
   = (fst (one_round condition child (r, w)),
      (snd (one_round condition child (r, w)), log @ [c, ch]))"
  by (simp add: one_round_def traced_apply try_await_traced)

lemma rounds_traced:
  "rounds k (traced c condition) (traced ch child) (r, (w, log))
   = (fst (rounds k condition child (r, w)),
      (snd (rounds k condition child (r, w)), log @ concat (replicate k [c, ch])))"
proof (induction k arbitrary: r w log)
  case 0
  show ?case by (simp add: rounds_0)
next
  case (Suc k)
  show ?case
    by (simp only: rounds_Suc one_round_traced Suc.IH prod.collapse)
       (simp add: one_round_def)
qed

lemma repeat_until_unfold:
  "repeat_until condition child w = while_condition_eval (is_success condition) child FAILURE w"
  by (simp add: repeat_until_def node_metadata_def)

lemma count_child_labels:
  "length (filter (\<lambda>l. l = ''child'') (concat (replicate m [''condition'', ''child'']) @ [''condition''])) = m"
  by (induction m) simp_all

lemma rounds_tick:
  "rounds 0 (counter_below 2) tick (FAILURE, 0) = (FAILURE, 0)"
  "rounds (Suc 0) (counter_below 2) tick (FAILURE, 0) = (PyInt 0, Suc 0)"
  "rounds (Suc (Suc 0)) (counter_below 2) tick (FAILURE, 0) = (PyInt 1, Suc (Suc 0))"
  by (simp_all add: rounds_def one_round_def try_await_def counter_below_def tick_def)

subsection \<open>Containment of errors\<close>

lemma while_never_raises:
  assumes "while_condition_eval condition_eval child result w = Some y"
  shows "(\<forall>w0. \<exists>c. fst (condition_eval w0) = Return c) \<longrightarrow> (\<exists>v. fst y = Return v)"
  using assms
proof (induction condition_eval child result w y rule: while_condition_eval.raw_induct [rotated 1, consumes 1])
  case (1 loop condition_eval child result w y)
  show ?case
  proof
    assume total: "\<forall>w0. \<exists>c. fst (condition_eval w0) = Return c"
    then obtain c where "fst (condition_eval w) = Return c"
      by blast
    then obtain w1 where c: "condition_eval w = (Return c, w1)"
      by (cases "condition_eval w") simp
    obtain r w2 where t: "try_await child w1 = (r, w2)"
      by (cases "try_await child w1")
    show "\<exists>v. fst y = Return v"
    proof (cases "truthy c")
      case True
      have "loop condition_eval child r w2 = Some y"
        using 1(2) by (simp add: c t True)
      then show ?thesis using 1(1) total by blast
    next
      case False
      then show ?thesis using 1(2) by (auto simp: c)
    qed
  qed
qed

lemma is_success_returns:
  "\<forall>w0. \<exists>c. fst (is_success condition w0) = Return c"
proof
  fix w0
  obtain r w1 where c: "condition w0 = (r, w1)" by (cases "condition w0")
  show "\<exists>c. fst (is_success condition w0) = Return c"
  proof (cases r)
    case (Return v)
    with c show ?thesis by (simp add: is_success_Return)
  next
    case (Raise e)
    with c show ?thesis by (simp add: is_success_Raise)
  qed
qed

lemma while_raise_from_check:
  assumes "while_condition_eval condition_eval child result w = Some y"
  shows "fst y = Raise e \<longrightarrow> (\<exists>w0. condition_eval w0 = (Raise e, snd y))"
  using assms
proof (induction condition_eval child result w y
    rule: while_condition_eval.raw_induct [rotated 1, consumes 1])
  case (1 loop condition_eval child result w y)
  obtain r w1 where c: "condition_eval w = (r, w1)" by (cases "condition_eval w")
  obtain v w2 where t: "try_await child w1 = (v, w2)" by (cases "try_await child w1")
  show ?case
  proof (cases r)
    case (Raise x)
    with 1(2) c have "y = (Raise x, w1)" by simp
    with c Raise show ?thesis by auto
  next
    case (Return b)
    show ?thesis
    proof (cases "truthy b")
      case True
      with 1(2) c Return t have "loop condition_eval child v w2 = Some y" by simp
      then show ?thesis by (rule 1(1))
    next
      case False
      with 1(2) c Return show ?thesis by auto
    qed
  qed
qed

lemma sequence_inner_returns:
  "\<exists>v w'. sequence_inner children st ft w = (Return v, w')"
  by (simp add: sequence_inner_def split: prod.splits option.splits)

lemma node_metadata_id: "node_metadata = id"
  by (rule ext) (simp add: node_metadata_def)

lemma fallback_eq: "fallback children = sequence children (Some (min 1 (int (length children))))"
  by (simp add: fallback_def node_metadata_id map_sum.id)

lemma selector_eq: "selector children = fallback children"
  by (simp add: selector_def node_metadata_id map_sum.id)

lemma run_sequence_cases:
  "run (sequence children thr) w = Inl AssertionError
   \<or> (\<exists>v w'. run (sequence children thr) w = Inr (Return v, w'))"
proof (cases "sequence children thr")
  case (Inl a)
  then show ?thesis by (cases a) (simp add: run_def)
next
  case (Inr nd)
  then obtain st ft where "nd = sequence_inner children st ft"
    by (auto simp: sequence_def node_metadata_def Let_def split: if_splits)
  with Inr sequence_inner_returns [of children st ft w] show ?thesis
    by (simp add: run_def)
qed

lemma sequence_min_built:
  "\<exists>st ft. sequence children (Some (min 1 (int (length children)))) = Inr (sequence_inner children st ft)"
  by (cases children) (simp_all add: sequence_def node_metadata_def Let_def, blast+)

lemma run_fallback_returns:
  "\<exists>v w'. run (fallback children) w = Inr (Return v, w')"
proof -
  from sequence_min_built obtain st ft where
    "fallback children = Inr (sequence_inner children st ft)"
    unfolding fallback_eq by blast
  with sequence_inner_returns [of children st ft w] show ?thesis
    by (simp add: run_def)
qed

section \<open>Claims\<close>

subsection \<open>C1: the two thresholds of sequence\<close>

text \<open>
  C1. The claim lets the threshold \<open>s\<close> range over \<open>[0, n]\<close>. For \<open>s\<close> in \<open>[1, n]\<close> the
  code does what it says (\<open>sequence_threshold_trigger\<close> above). For \<open>s = 0\<close> the claim
  has the success count at the threshold before any child is evaluated, and asks for
  \<open>n + 1\<close> failures to fail. The code replaces an argument \<open>0\<close> by \<open>n\<close>:
  \<^verbatim>\<open>sequence([f, a], 0)\<close>, with \<open>f\<close> failing, returns the Failure of \<open>f\<close> after that one
  failure and never evaluates \<open>a\<close>; \<^verbatim>\<open>sequence([a], 0)\<close> evaluates \<open>a\<close> before it
  succeeds. With no children, the only case where the threshold stays \<open>0\<close>, neither
  threshold is ever tested and the node returns \<^verbatim>\<open>FAILURE\<close>.
\<close>

theorem sequence_threshold_zero_is_default:
  "run (sequence (traced_from 0 [leaf_return FAILURE :: 's node, leaf_return SUCCESS]) (Some 0)) (w, [])
     = Inr (Return FAILURE, (w, [0]))
   \<and> run (sequence (traced_from 0 [leaf_return SUCCESS :: 's node]) (Some 0)) (w, [])
     = Inr (Return (PyList [SUCCESS]), (w, [0]))
   \<and> run (sequence ([] :: 's node list) (Some 0)) w = Inr (Return FAILURE, w)"
  by (simp add: run_def sequence_def sequence_inner_def node_metadata_def
      try_await_def traced_def leaf_return_def FAILURE_def SUCCESS_def)

subsection \<open>C2: the default threshold is the classic AND\<close>

text \<open>
  C2. For a non-empty list of children, \<^verbatim>\<open>sequence\<close> with the default threshold returns
  Success exactly when every child reports Success, and then the Success carries the
  list of all results. If child \<open>k\<close> is the first to report Failure, the result is that
  child's own Failure, the state is the one child \<open>k\<close> left, and the children awaited are
  exactly those at positions \<open>0\<close> to \<open>k\<close>: no later child is evaluated. The children are
  traced, so the log of the final state lists the positions awaited. The scenario
  \<^verbatim>\<open>sequence([a, f, b])\<close> of the spec is the witness below.
\<close>

theorem sequence_default_is_and:
  fixes children :: "'s node list"
  assumes "children \<noteq> []"
  shows "(list_all truthy (fst (run_children children w)) \<longrightarrow>
      run (sequence (traced_from 0 children) None) (w, [])
      = Inr (Return (PyList (fst (run_children children w))),
             (snd (run_children children w), [0..<length children])))
   \<and> (k < length children
        \<and> (\<forall>j<k. truthy (fst (run_children children w) ! j))
        \<and> \<not> truthy (fst (run_children children w) ! k) \<longrightarrow>
        run (sequence (traced_from 0 children) None) (w, [])
        = Inr (Return (fst (run_children children w) ! k),
               (snd (run_children (take (Suc k) children) w), [0..<Suc k])))
   \<and> ((\<exists>v st. run (sequence (traced_from 0 children) None) (w, []) = Inr (Return v, st) \<and> truthy v)
        \<longleftrightarrow> list_all truthy (fst (run_children children w)))"
proof -
  let ?rs = "fst (run_children children w)"
  let ?tc = "traced_from 0 children"
  have ne: "?tc \<noteq> []" using assms by (simp add: traced_from_eq_Nil)
  have run: "run (sequence ?tc None) (w, [])
     = Inr (sequence_inner ?tc (int (length children)) 1 (w, []))"
    using run_sequence_default [OF ne, of "(w, [])"] by (simp only: length_traced_from)
  have A: "run (sequence ?tc None) (w, [])
      = Inr (Return (PyList ?rs), (snd (run_children children w), [0..<length children]))"
    if "list_all truthy ?rs"
    using sequence_inner_all_succeed [OF assms that, of 0 "[]"] by (simp add: run)
  have B: "run (sequence ?tc None) (w, [])
        = Inr (Return (?rs ! i), (snd (run_children (take (Suc i) children) w), [0..<Suc i]))"
    if "i < length children" "\<forall>j<i. truthy (?rs ! j)" "\<not> truthy (?rs ! i)" for i
    using sequence_inner_first_failure [OF that, of 0 "[]"] by (simp add: run del: upt_Suc take_Suc_Cons)
  have C: "(\<exists>v st. run (sequence ?tc None) (w, []) = Inr (Return v, st) \<and> truthy v)
        \<longleftrightarrow> list_all truthy ?rs"
  proof
    assume all: "list_all truthy ?rs"
    have "?rs \<noteq> []" using assms length_run_children [of children w] by auto
    then have "truthy (PyList ?rs)" by simp
    with A [OF all] show "\<exists>v st. run (sequence ?tc None) (w, []) = Inr (Return v, st) \<and> truthy v"
      by blast
  next
    assume ex: "\<exists>v st. run (sequence ?tc None) (w, []) = Inr (Return v, st) \<and> truthy v"
    show "list_all truthy ?rs"
    proof (rule ccontr)
      assume "\<not> list_all truthy ?rs"
      then obtain i where i: "i < length ?rs" "\<forall>j<i. truthy (?rs ! j)" "\<not> truthy (?rs ! i)"
        using first_falsy by blast
      then have "i < length children" by (simp add: length_run_children)
      from B [OF this i(2) i(3)] ex i(3) show False by simp
    qed
  qed
  from A B C show ?thesis by blast
qed

theorem sequence_default_is_and_witness:
  "[leaf_return (PyStr ''a''), leaf_return FAILURE, leaf_return (PyStr ''b'')] \<noteq> ([] :: unit node list)
   \<and> run (sequence (traced_from 0
        [leaf_return (PyStr ''a''), leaf_return FAILURE, leaf_return (PyStr ''b'')]) None) ((), [])
     = Inr (Return FAILURE, ((), [0, 1]))
   \<and> run (sequence (traced_from 0
        [leaf_return (PyStr ''a''), leaf_return (PyStr ''b'')]) None) ((), [])
     = Inr (Return (PyList [PyStr ''a'', PyStr ''b'']), ((), [0, 1]))"
proof -
  let ?afb = "[leaf_return (PyStr ''a''), leaf_return FAILURE, leaf_return (PyStr ''b'')] :: unit node list"
  let ?ab = "[leaf_return (PyStr ''a''), leaf_return (PyStr ''b'')] :: unit node list"
  have ne: "?afb \<noteq> []" and ne': "?ab \<noteq> []" by simp_all
  have rs: "run_children ?afb () = ([PyStr ''a'', FAILURE, PyStr ''b''], ())"
    by (simp add: try_await_def leaf_return_def)
  have rs2: "run_children (take (Suc 1) ?afb) () = ([PyStr ''a'', FAILURE], ())"
    by (simp add: try_await_def leaf_return_def)
  have rs': "run_children ?ab () = ([PyStr ''a'', PyStr ''b''], ())"
    by (simp add: try_await_def leaf_return_def)
  have hyp: "1 < length ?afb \<and> (\<forall>j<1. truthy (fst (run_children ?afb ()) ! j))
      \<and> \<not> truthy (fst (run_children ?afb ()) ! 1)"
    by (simp only: rs fst_conv) (simp add: FAILURE_def)
  have hyp': "list_all truthy (fst (run_children ?ab ()))"
    by (simp only: rs' fst_conv) simp
  from sequence_default_is_and [OF ne, of "()" 1] hyp
  have "run (sequence (traced_from 0 ?afb) None) ((), [])
        = Inr (Return (fst (run_children ?afb ()) ! 1),
               (snd (run_children (take (Suc 1) ?afb) ()), [0..<Suc 1]))"
    by blast
  then have 1: "run (sequence (traced_from 0 ?afb) None) ((), []) = Inr (Return FAILURE, ((), [0, 1]))"
    by (simp only: rs rs2 fst_conv snd_conv) simp
  from sequence_default_is_and [OF ne', of "()"] hyp'
  have "run (sequence (traced_from 0 ?ab) None) ((), [])
      = Inr (Return (PyList (fst (run_children ?ab ()))), (snd (run_children ?ab ()), [0..<length ?ab]))"
    by blast
  then have 2: "run (sequence (traced_from 0 ?ab) None) ((), [])
      = Inr (Return (PyList [PyStr ''a'', PyStr ''b'']), ((), [0, 1]))"
    by (simp only: rs' fst_conv snd_conv) simp
  from ne 1 2 show ?thesis by blast
qed

subsection \<open>C3: threshold zero\<close>

text \<open>
  C3. The claim expects an immediate Success whenever the threshold is \<open>0\<close>. In the code
  \<^verbatim>\<open>sequence([])\<close>, \<^verbatim>\<open>fallback([])\<close> and \<^verbatim>\<open>selector([])\<close> return \<^verbatim>\<open>FAILURE\<close>, and
  \<^verbatim>\<open>sequence([a, f], 0)\<close>, with \<open>a\<close> succeeding and \<open>f\<close> failing, returns the Failure of \<open>f\<close>.
\<close>

theorem threshold_zero_returns_failure:
  "run (sequence ([] :: 's node list) None) w = Inr (Return FAILURE, w)
   \<and> run (fallback ([] :: 's node list)) w = Inr (Return FAILURE, w)
   \<and> run (selector ([] :: 's node list)) w = Inr (Return FAILURE, w)
   \<and> run (sequence [leaf_return (PyStr ''a'') :: 's node, leaf_return FAILURE] (Some 0)) w
       = Inr (Return FAILURE, w)
   \<and> \<not> truthy FAILURE"
  by (simp add: run_def sequence_def fallback_def selector_def sequence_inner_def node_metadata_def
      try_await_def leaf_return_def FAILURE_def)

subsection \<open>C4: an error raised by a child of sequence\<close>

text \<open>
  C4. When a child raises \<open>e\<close> inside the loop of \<^verbatim>\<open>_sequence\<close>, the iteration records
  \<^verbatim>\<open>ControlFlowException(e)\<close>, a Failure that carries \<open>e\<close>; the failure count goes up by
  one and the success count stays, so the loop either returns that Failure (failure
  threshold met) or goes on with the recorded result appended. The evaluation of the
  node always ends with a returned value, never with a raised error, whatever the
  children and the thresholds.
\<close>

theorem sequence_records_raised_error:
  fixes child :: "'s node"
  assumes "child w = (Raise e, w')"
  shows "try_await child w = (ControlFlowException e, w')
   \<and> \<not> truthy (ControlFlowException e)
   \<and> for_children (child # rest) st ft success failure results w
       = (if failure + 1 = ft then (Some (ControlFlowException e), w')
          else for_children rest st ft success (failure + 1)
                 (results @ [ControlFlowException e]) w')
   \<and> (\<exists>v w''. sequence_inner (before @ child # rest) st ft w0 = (Return v, w''))
   \<and> (run (sequence (before @ child # rest) thr) w0 = Inl AssertionError
        \<or> (\<exists>v w''. run (sequence (before @ child # rest) thr) w0 = Inr (Return v, w'')))"
proof -
  have t: "try_await child w = (ControlFlowException e, w')"
    using assms by (simp add: try_await_def)
  then have "for_children (child # rest) st ft success failure results w
       = (if failure + 1 = ft then (Some (ControlFlowException e), w')
          else for_children rest st ft success (failure + 1)
                 (results @ [ControlFlowException e]) w')"
    by simp
  with t sequence_inner_returns [of "before @ child # rest" st ft w0]
    run_sequence_cases [of "before @ child # rest" thr w0]
  show ?thesis by simp
qed

theorem sequence_records_raised_error_witness:
  "leaf_raise (Exception ''boom'') () = (Raise (Exception ''boom''), ())
   \<and> for_children [leaf_raise (Exception ''boom''), leaf_return (PyStr ''b'')] 2 2 1 0 [PyStr ''a''] ()
       = (Some (PyList [PyStr ''a'', ControlFlowException (Exception ''boom''), PyStr ''b'']), ())
   \<and> for_children [leaf_raise (Exception ''boom''), leaf_return (PyStr ''b'')] 3 1 1 0 [PyStr ''a''] ()
       = (Some (ControlFlowException (Exception ''boom'')), ())
   \<and> run (sequence [leaf_return (PyStr ''a''), leaf_raise (Exception ''boom''), leaf_return (PyStr ''b'')]
          (Some 2)) ()
       = Inr (Return (PyList [PyStr ''a'', ControlFlowException (Exception ''boom''), PyStr ''b'']), ())
   \<and> run (sequence [leaf_return (PyStr ''a''), leaf_raise (Exception ''boom''), leaf_return (PyStr ''b'')]
          None) ()
       = Inr (Return (ControlFlowException (Exception ''boom'')), ())"
proof -
  have r: "leaf_raise (Exception ''boom'') () = (Raise (Exception ''boom''), ())"
    by (simp add: leaf_raise_def)
  have b: "try_await (leaf_return (PyStr ''b'')) () = (PyStr ''b'', ())"
      and a: "try_await (leaf_return (PyStr ''a'')) () = (PyStr ''a'', ())"
    by (simp_all add: try_await_def leaf_return_def)
  note inst = sequence_records_raised_error [where child = "leaf_raise (Exception ''boom'')" and w = "()" and w' = "()"
      and e = "Exception ''boom''" and rest = "[leaf_return (PyStr ''b'')]" and success = 1
      and failure = 0 and results = "[PyStr ''a'']" and before = "[]" and ?w0.0 = "()", OF r]
  have 1: "for_children [leaf_raise (Exception ''boom''), leaf_return (PyStr ''b'')] 2 2 1 0 [PyStr ''a''] ()
       = (Some (PyList [PyStr ''a'', ControlFlowException (Exception ''boom''), PyStr ''b'']), ())"
    using inst [where st = 2 and ft = 2] by (simp add: b)
  have 2: "for_children [leaf_raise (Exception ''boom''), leaf_return (PyStr ''b'')] 3 1 1 0 [PyStr ''a''] ()
       = (Some (ControlFlowException (Exception ''boom'')), ())"
    using inst [where st = 3 and ft = 1] by simp
  have 3: "run (sequence [leaf_return (PyStr ''a''), leaf_raise (Exception ''boom''), leaf_return (PyStr ''b'')]
          (Some 2)) ()
       = Inr (Return (PyList [PyStr ''a'', ControlFlowException (Exception ''boom''), PyStr ''b'']), ())"
    by (simp add: run_def sequence_def node_metadata_def sequence_inner_def try_await_def
        leaf_return_def leaf_raise_def)
  have 4: "run (sequence [leaf_return (PyStr ''a''), leaf_raise (Exception ''boom''), leaf_return (PyStr ''b'')]
          None) ()
       = Inr (Return (ControlFlowException (Exception ''boom'')), ())"
    by (simp add: run_def sequence_def node_metadata_def sequence_inner_def try_await_def
        leaf_return_def leaf_raise_def)
  from r 1 2 3 4 show ?thesis by blast
qed

subsection \<open>C5: which combinators contain errors\<close>

text \<open>
  C5, as stated, fails for \<^verbatim>\<open>decision\<close>: no \<^verbatim>\<open>await\<close> of \<^verbatim>\<open>_decision\<close> is inside a
  \<^verbatim>\<open>try\<close>, so an error raised by the condition leaves the evaluation of the decision
  node as a raised error.
\<close>

theorem decision_reraises_condition_error:
  "decision (leaf_raise (Exception ''boom'')) (leaf_return SUCCESS) None ()
   = (Raise (Exception ''boom''), ())"
  by (simp add: decision_def node_metadata_def leaf_raise_def)

text \<open>
  C5, amended: the claim holds for every combinator but \<^verbatim>\<open>decision\<close>. The evaluation of a
  node built by \<^verbatim>\<open>sequence\<close>, \<^verbatim>\<open>fallback\<close> or \<^verbatim>\<open>selector\<close> always ends with a returned
  value, whatever its children raise. An evaluation of \<^verbatim>\<open>repeat_until\<close> never ends with a
  raised error, whatever its child and its condition raise: when it ends, it ends with
  a returned value. The handler of \<^verbatim>\<open>_repeat_until\<close> itself covers the child; the loop
  awaits the condition through \<^verbatim>\<open>is_success\<close>, and the only error the loop can let out
  is one raised by that wrapped check, which raises none. \<^verbatim>\<open>decision\<close> contains nothing:
  an error raised by its condition, or by the branch it evaluates, is raised by the
  decision node.
\<close>

theorem errors_contained_except_in_decision:
  fixes children :: "'s node list"
    and condition condition_eval child success_tree failure_node :: "'s node"
  shows "(run (sequence children thr) w = Inl AssertionError
        \<or> (\<exists>v w'. run (sequence children thr) w = Inr (Return v, w')))
   \<and> (\<exists>v w'. run (fallback children) w = Inr (Return v, w'))
   \<and> (\<exists>v w'. run (selector children) w = Inr (Return v, w'))
   \<and> (repeat_until condition child w = None
        \<or> (\<exists>v w'. repeat_until condition child w = Some (Return v, w')))
   \<and> (while_condition_eval condition_eval child result w = Some (Raise e, w2) \<longrightarrow>
        (\<exists>w0. condition_eval w0 = (Raise e, w2)))
   \<and> (condition w = (Raise e, w1) \<longrightarrow>
        decision condition success_tree failure_tree w = (Raise e, w1))
   \<and> (condition w = (Return c, w1) \<and> truthy c \<and> success_tree w1 = (Raise e, w2) \<longrightarrow>
        decision condition success_tree failure_tree w = (Raise e, w2))
   \<and> (condition w = (Return c, w1) \<and> \<not> truthy c \<and> failure_node w1 = (Raise e, w2) \<longrightarrow>
        decision condition success_tree (Some failure_node) w = (Raise e, w2))"
proof -
  have rep: "repeat_until condition child w = None
        \<or> (\<exists>v w'. repeat_until condition child w = Some (Return v, w'))"
  proof (cases "repeat_until condition child w")
    case None
    then show ?thesis by simp
  next
    case (Some y)
    then have "while_condition_eval (is_success condition) child FAILURE w = Some y"
      by (simp add: repeat_until_unfold)
    from while_never_raises [OF this] is_success_returns [of condition]
    obtain v where "fst y = Return v" by blast
    then have "y = (Return v, snd y)" by (simp add: prod_eq_iff)
    with Some show ?thesis by auto
  qed
  have loop: "\<exists>w0. condition_eval w0 = (Raise e, w2)"
    if "while_condition_eval condition_eval child result w = Some (Raise e, w2)"
    using while_raise_from_check [OF that, of e] by simp
  have dec: "(condition w = (Raise e, w1) \<longrightarrow>
        decision condition success_tree failure_tree w = (Raise e, w1))
   \<and> (condition w = (Return c, w1) \<and> truthy c \<and> success_tree w1 = (Raise e, w2) \<longrightarrow>
        decision condition success_tree failure_tree w = (Raise e, w2))
   \<and> (condition w = (Return c, w1) \<and> \<not> truthy c \<and> failure_node w1 = (Raise e, w2) \<longrightarrow>
        decision condition success_tree (Some failure_node) w = (Raise e, w2))"
    by (simp add: decision_def node_metadata_def)
  from run_sequence_cases [of children thr w] run_fallback_returns [of children w]
    rep loop dec show ?thesis
    by (simp only: selector_eq) blast
qed

theorem errors_contained_except_in_decision_witness:
  "repeat_until (counter_below 1) raise_at_zero 0
       = Some (Return (ControlFlowException (Exception ''boom'')), 1)
   \<and> repeat_until (leaf_raise (Exception ''boom'')) tick (0 :: nat) = Some (Return FAILURE, 0)
   \<and> while_condition_eval (leaf_raise (Exception ''boom'')) tick FAILURE (0 :: nat)
       = Some (Raise (Exception ''boom''), 0)
   \<and> (\<exists>w0 :: nat. leaf_raise (Exception ''boom'') w0 = (Raise (Exception ''boom''), 0))
   \<and> run (sequence [leaf_raise (Exception ''boom'')] None) (0 :: nat)
       = Inr (Return (ControlFlowException (Exception ''boom'')), 0)
   \<and> run (fallback [leaf_raise (Exception ''boom'')]) (0 :: nat)
       = Inr (Return (ControlFlowException (Exception ''boom'')), 0)
   \<and> run (selector [leaf_raise (Exception ''boom'')]) (0 :: nat)
       = Inr (Return (ControlFlowException (Exception ''boom'')), 0)
   \<and> decision (leaf_raise (Exception ''boom'')) tick None 0 = (Raise (Exception ''boom''), 0)
   \<and> decision (counter_below 1) raise_at_zero None 0 = (Raise (Exception ''boom''), 1)
   \<and> decision (counter_below 0) tick (Some raise_at_zero) 0 = (Raise (Exception ''boom''), 1)"
proof -
  have r: "leaf_raise (Exception ''boom'') (0 :: nat) = (Raise (Exception ''boom''), 0)"
    by (simp add: leaf_raise_def)
  have s: "counter_below 1 0 = (Return (PyBool True), 0) \<and> truthy (PyBool True)
      \<and> raise_at_zero 0 = (Raise (Exception ''boom''), 1)"
    by (simp add: counter_below_def raise_at_zero_def)
  have f: "counter_below 0 0 = (Return (PyBool False), 0) \<and> \<not> truthy (PyBool False)
      \<and> raise_at_zero 0 = (Raise (Exception ''boom''), 1)"
    by (simp add: counter_below_def raise_at_zero_def)
  have raw: "while_condition_eval (leaf_raise (Exception ''boom'')) tick FAILURE (0 :: nat)
       = Some (Raise (Exception ''boom''), 0)"
    by (subst while_condition_eval.simps) (simp add: r)
  note inst = errors_contained_except_in_decision [where children = "[leaf_raise (Exception ''boom'')]"
      and thr = None and w = 0 and child = raise_at_zero and e = "Exception ''boom''"]
  from inst [where condition = "counter_below 1" and success_tree = raise_at_zero
      and failure_tree = None and c = "PyBool True" and ?w1.0 = 0 and ?w2.0 = 1] s
  have ended: "repeat_until (counter_below 1) raise_at_zero 0 = None
        \<or> (\<exists>v w'. repeat_until (counter_below 1) raise_at_zero 0 = Some (Return v, w'))"
    and d2: "decision (counter_below 1) raise_at_zero None 0 = (Raise (Exception ''boom''), 1)"
    by blast+
  from errors_contained_except_in_decision [where condition_eval = "leaf_raise (Exception ''boom'')"
      and child = tick and result = FAILURE and w = 0 and e = "Exception ''boom''" and ?w2.0 = 0] raw
  have src: "\<exists>w0 :: nat. leaf_raise (Exception ''boom'') w0 = (Raise (Exception ''boom''), 0)"
    by blast
  from inst [where condition = "leaf_raise (Exception ''boom'')" and success_tree = tick
      and failure_tree = None and ?w1.0 = 0] r
  have d1: "decision (leaf_raise (Exception ''boom'')) tick None 0 = (Raise (Exception ''boom''), 0)"
    by blast
  from inst [where condition = "counter_below 0" and success_tree = tick
      and failure_node = raise_at_zero and c = "PyBool False" and ?w1.0 = 0 and ?w2.0 = 1] f
  have d3: "decision (counter_below 0) tick (Some raise_at_zero) 0 = (Raise (Exception ''boom''), 1)"
    by blast
  have "while_condition_eval (is_success (counter_below 1)) raise_at_zero FAILURE 0
      = while_condition_eval (is_success (counter_below 1)) raise_at_zero
          (fst (try_await raise_at_zero 0)) (snd (try_await raise_at_zero 0))"
    using while_step [of "counter_below 1" 0 "PyBool True" 0 raise_at_zero FAILURE] s by blast
  also have "\<dots> = while_condition_eval (is_success (counter_below 1)) raise_at_zero
          (ControlFlowException (Exception ''boom'')) 1"
    by (simp add: try_await_def raise_at_zero_def)
  also have "\<dots> = Some (Return (ControlFlowException (Exception ''boom'')), 1)"
    using while_stop [of "counter_below 1" 1 "PyBool False" 1 raise_at_zero
        "ControlFlowException (Exception ''boom'')"]
    by (simp add: counter_below_def)
  finally have rep: "repeat_until (counter_below 1) raise_at_zero 0
       = Some (Return (ControlFlowException (Exception ''boom'')), 1)"
    unfolding repeat_until_unfold .
  have rep2: "repeat_until (leaf_raise (Exception ''boom'')) tick (0 :: nat) = Some (Return FAILURE, 0)"
    unfolding repeat_until_unfold
    using while_raise [of "leaf_raise (Exception ''boom'')" 0 "Exception ''boom''" 0 tick FAILURE] r
    by blast
  have sq: "run (sequence [leaf_raise (Exception ''boom'')] None) (0 :: nat)
       = Inr (Return (ControlFlowException (Exception ''boom'')), 0)"
    by (simp add: run_def sequence_def node_metadata_def sequence_inner_def try_await_def
        leaf_raise_def)
  have fb: "run (fallback [leaf_raise (Exception ''boom'')]) (0 :: nat)
       = Inr (Return (ControlFlowException (Exception ''boom'')), 0)"
    by (simp add: run_def fallback_eq sequence_def node_metadata_def sequence_inner_def
        try_await_def leaf_raise_def)
  from rep rep2 raw src sq fb d1 d2 d3 ended show ?thesis
    by (simp only: selector_eq)
qed

subsection \<open>C6: decision evaluates one branch\<close>

text \<open>
  C6, as stated, fails for a condition that raises: the claim has the node return the
  Result of \<^verbatim>\<open>failure_tree\<close> whenever the condition's Result is not a Success, but with a
  condition that raises and a \<^verbatim>\<open>failure_tree\<close> provided, the decision node raises the
  condition's error and \<^verbatim>\<open>failure_tree\<close> is never evaluated.
\<close>

theorem decision_raising_condition_skips_failure_tree:
  "decision (traced ''condition'' (leaf_raise (Exception ''boom'')))
     (traced ''success_tree'' tick)
     (Some (traced ''failure_tree'' (leaf_return (PyStr ''no'')))) (0, [])
   = (Raise (Exception ''boom''), (0, [''condition'']))"
  by (simp add: decision_def node_metadata_def traced_def leaf_raise_def)

text \<open>
  C6, amended: for a condition whose evaluation returns. \<^verbatim>\<open>decision\<close> evaluates its
  condition first. If the condition returns a Success, the outcome is that of
  \<^verbatim>\<open>success_tree\<close>, evaluated in the state the condition left, and \<^verbatim>\<open>failure_tree\<close> is
  not evaluated. If it returns a Failure, the outcome is that of \<^verbatim>\<open>failure_tree\<close> when
  there is one, and \<^verbatim>\<open>FAILURE\<close> when there is none, and \<^verbatim>\<open>success_tree\<close> is not evaluated.
  In every case, also when the condition raises (then neither tree is evaluated and the
  node raises the error), the nodes awaited are the condition and at most one of the
  two trees.
\<close>

theorem decision_evaluates_one_branch:
  fixes condition success_tree failure_node :: "'s node"
  shows "(condition w = (Return c, w1) \<and> truthy c \<longrightarrow>
      decision (traced ''condition'' condition) (traced ''success_tree'' success_tree)
        (map_option (traced ''failure_tree'') failure_tree) (w, [])
      = (fst (success_tree w1), (snd (success_tree w1), [''condition'', ''success_tree''])))
   \<and> (condition w = (Return c, w1) \<and> \<not> truthy c \<longrightarrow>
      decision (traced ''condition'' condition) (traced ''success_tree'' success_tree)
        (Some (traced ''failure_tree'' failure_node)) (w, [])
      = (fst (failure_node w1), (snd (failure_node w1), [''condition'', ''failure_tree'']))
      \<and> decision (traced ''condition'' condition) (traced ''success_tree'' success_tree)
        None (w, [])
      = (Return FAILURE, (w1, [''condition''])))
   \<and> (condition w = (Raise e, w1) \<longrightarrow>
      decision (traced ''condition'' condition) (traced ''success_tree'' success_tree)
        (map_option (traced ''failure_tree'') failure_tree) (w, [])
      = (Raise e, (w1, [''condition''])))
   \<and> snd (snd (decision (traced ''condition'' condition) (traced ''success_tree'' success_tree)
        (map_option (traced ''failure_tree'') failure_tree) (w, [])))
      \<in> {[''condition''], [''condition'', ''success_tree''], [''condition'', ''failure_tree'']}"
  by (auto simp: decision_def node_metadata_def traced_def split: prod.splits option.splits outcome.splits)

theorem decision_evaluates_one_branch_witness:
  "decision (traced ''condition'' (leaf_return (PyStr ''yes''))) (traced ''success_tree'' tick)
        (map_option (traced ''failure_tree'') (Some (leaf_raise (Exception ''boom'')))) (0, [])
     = (Return (PyInt 0), (1, [''condition'', ''success_tree'']))
   \<and> decision (traced ''condition'' (leaf_return PyNone)) (traced ''success_tree'' tick)
        (Some (traced ''failure_tree'' (leaf_return (PyStr ''no'')))) (0, [])
     = (Return (PyStr ''no''), (0, [''condition'', ''failure_tree'']))
   \<and> decision (traced ''condition'' (leaf_return PyNone)) (traced ''success_tree'' tick)
        None (0, [])
     = (Return FAILURE, (0, [''condition'']))
   \<and> decision (traced ''condition'' (leaf_raise (Exception ''boom''))) (traced ''success_tree'' tick)
        (map_option (traced ''failure_tree'') None) (0, [])
     = (Raise (Exception ''boom''), (0, [''condition'']))"
proof -
  have y: "leaf_return (PyStr ''yes'') (0 :: nat) = (Return (PyStr ''yes''), 0) \<and> truthy (PyStr ''yes'')"
    by (simp add: leaf_return_def)
  have n: "leaf_return PyNone (0 :: nat) = (Return PyNone, 0) \<and> \<not> truthy PyNone"
    by (simp add: leaf_return_def)
  have r: "leaf_raise (Exception ''boom'') (0 :: nat) = (Raise (Exception ''boom''), 0)"
    by (simp add: leaf_raise_def)
  have t: "fst (tick 0) = Return (PyInt 0)" "snd (tick 0) = 1"
    by (simp_all add: tick_def)
  have f: "fst (leaf_return (PyStr ''no'') (0 :: nat)) = Return (PyStr ''no'')"
     "snd (leaf_return (PyStr ''no'') (0 :: nat)) = 0"
    by (simp_all add: leaf_return_def)
  from decision_evaluates_one_branch [where condition = "leaf_return (PyStr ''yes'')" and w = 0 and c = "PyStr ''yes''"
      and ?w1.0 = 0 and success_tree = tick and failure_tree = "Some (leaf_raise (Exception ''boom''))"] y
  have 1: "decision (traced ''condition'' (leaf_return (PyStr ''yes''))) (traced ''success_tree'' tick)
        (map_option (traced ''failure_tree'') (Some (leaf_raise (Exception ''boom'')))) (0, [])
     = (fst (tick 0), (snd (tick 0), [''condition'', ''success_tree'']))"
    by blast
  from decision_evaluates_one_branch [where condition = "leaf_return PyNone" and w = 0 and c = PyNone
      and ?w1.0 = 0 and success_tree = tick and failure_node = "leaf_return (PyStr ''no'')"] n
  have 2: "decision (traced ''condition'' (leaf_return PyNone)) (traced ''success_tree'' tick)
        (Some (traced ''failure_tree'' (leaf_return (PyStr ''no'')))) (0, [])
      = (fst (leaf_return (PyStr ''no'') (0::nat)), (snd (leaf_return (PyStr ''no'') (0::nat)), [''condition'', ''failure_tree'']))
      \<and> decision (traced ''condition'' (leaf_return PyNone)) (traced ''success_tree'' tick)
        None (0, [])
      = (Return FAILURE, (0, [''condition'']))"
    by blast
  from decision_evaluates_one_branch [where condition = "leaf_raise (Exception ''boom'')" and w = 0 and e = "Exception ''boom''"
      and ?w1.0 = 0 and success_tree = tick and failure_tree = None] r
  have 3: "decision (traced ''condition'' (leaf_raise (Exception ''boom''))) (traced ''success_tree'' tick)
        (map_option (traced ''failure_tree'') None) (0, [])
     = (Raise (Exception ''boom''), (0, [''condition'']))"
    by blast
  from 1 2 3 show ?thesis by (simp only: t f)
qed

subsection \<open>C7: how often repeat\_until evaluates its child\<close>

text \<open>
  C7. If the condition reports Success on its first \<open>m\<close> checks and Failure on the next
  one, \<^verbatim>\<open>repeat_until\<close> ends, it has awaited the condition \<open>m + 1\<close> times and the child
  exactly \<open>m\<close> times (never after the failing check), and it returns the result recorded
  for the \<open>m\<close>-th evaluation of the child. For \<open>m = 0\<close> the child is not evaluated and the
  result is \<^verbatim>\<open>FAILURE\<close>. The state before check \<open>k\<close> is the one \<open>k\<close> rounds lead to.
\<close>

theorem repeat_until_child_evaluations:
  fixes condition child :: "'s node"
  assumes "\<forall>k<m. \<exists>c. fst (condition (snd (rounds k condition child (FAILURE, w)))) = Return c \<and> truthy c"
    and "\<exists>c. fst (condition (snd (rounds m condition child (FAILURE, w)))) = Return c \<and> \<not> truthy c"
  shows "repeat_until (traced ''condition'' condition) (traced ''child'' child) (w, [])
     = Some (Return (if m = 0 then FAILURE
                     else fst (try_await child
                            (snd (condition (snd (rounds (m - 1) condition child (FAILURE, w))))))),
             (snd (condition (snd (rounds m condition child (FAILURE, w)))),
              concat (replicate m [''condition'', ''child'']) @ [''condition'']))
   \<and> length (filter (\<lambda>l. l = ''child'')
         (concat (replicate m [''condition'', ''child'']) @ [''condition''])) = m"
proof -
  let ?tc = "traced ''condition'' condition"
  let ?th = "traced ''child'' child"
  have st: "fst (?tc (snd (rounds k ?tc ?th (FAILURE, (w, [])))))
      = fst (condition (snd (rounds k condition child (FAILURE, w))))" for k
    by (simp add: rounds_traced traced_apply)
  have a: "\<forall>k<m. \<exists>c. fst (?tc (snd (rounds k ?tc ?th (FAILURE, (w, []))))) = Return c \<and> truthy c"
    using assms(1) by (simp only: st)
  have b: "\<exists>c. fst (?tc (snd (rounds m ?tc ?th (FAILURE, (w, []))))) = Return c \<and> \<not> truthy c"
    using assms(2) by (simp only: st)
  have last: "fst (rounds m condition child (FAILURE, w))
      = (if m = 0 then FAILURE
         else fst (try_await child (snd (condition (snd (rounds (m - 1) condition child (FAILURE, w)))))))"
  proof (cases m)
    case 0
    then show ?thesis by (simp add: rounds_0)
  next
    case (Suc n)
    then show ?thesis by (simp add: rounds_Suc' one_round_def)
  qed
  have "repeat_until ?tc ?th (w, [])
      = Some (Return (fst (rounds m ?tc ?th (FAILURE, (w, [])))),
              snd (?tc (snd (rounds m ?tc ?th (FAILURE, (w, []))))))"
    unfolding repeat_until_unfold by (rule while_rounds [OF a b])
  then have "repeat_until ?tc ?th (w, [])
     = Some (Return (fst (rounds m condition child (FAILURE, w))),
             (snd (condition (snd (rounds m condition child (FAILURE, w)))),
              concat (replicate m [''condition'', ''child'']) @ [''condition'']))"
    by (simp add: rounds_traced traced_apply)
  then show ?thesis
    by (simp only: last count_child_labels simp_thms)
qed

theorem repeat_until_child_evaluations_witness:
  "repeat_until (traced ''condition'' (counter_below 2)) (traced ''child'' tick) (0, [])
     = Some (Return (PyInt 1), (2, [''condition'', ''child'', ''condition'', ''child'', ''condition'']))
   \<and> repeat_until (traced ''condition'' (counter_below 0)) (traced ''child'' tick) (0, [])
     = Some (Return FAILURE, (0, [''condition'']))"
proof -
  have a: "\<forall>k<Suc (Suc 0). \<exists>c. fst (counter_below 2 (snd (rounds k (counter_below 2) tick (FAILURE, 0)))) = Return c \<and> truthy c"
    by (simp add: less_Suc_eq rounds_tick counter_below_def)
  have b: "\<exists>c. fst (counter_below 2 (snd (rounds (Suc (Suc 0)) (counter_below 2) tick (FAILURE, 0)))) = Return c \<and> \<not> truthy c"
    by (simp add: rounds_tick counter_below_def)
  have 1: "repeat_until (traced ''condition'' (counter_below 2)) (traced ''child'' tick) (0, [])
     = Some (Return (PyInt 1), (2, [''condition'', ''child'', ''condition'', ''child'', ''condition'']))"
  proof -
    have e1: "fst (try_await tick (snd (counter_below 2
          (snd (rounds (Suc 0) (counter_below 2) tick (FAILURE, 0)))))) = PyInt 1"
      by (simp add: rounds_tick try_await_def counter_below_def tick_def)
    have e2: "snd (counter_below 2 (snd (rounds (Suc (Suc 0)) (counter_below 2) tick (FAILURE, 0)))) = 2"
      by (simp add: rounds_tick counter_below_def)
    from repeat_until_child_evaluations [OF a b] e1 e2 show ?thesis by simp
  qed
  have a0: "\<forall>k<0. \<exists>c. fst (counter_below 0 (snd (rounds k (counter_below 0) tick (FAILURE, 0)))) = Return c \<and> truthy c"
    by simp
  have b0: "\<exists>c. fst (counter_below 0 (snd (rounds 0 (counter_below 0) tick (FAILURE, 0)))) = Return c \<and> \<not> truthy c"
    by (simp add: rounds_0 counter_below_def)
  have 2: "repeat_until (traced ''condition'' (counter_below 0)) (traced ''child'' tick) (0, [])
     = Some (Return FAILURE, (0, [''condition'']))"
  proof -
    have e0: "snd (counter_below 0 (snd (rounds 0 (counter_below 0) tick (FAILURE, 0)))) = 0"
      by (simp add: rounds_0 counter_below_def)
    from repeat_until_child_evaluations [OF a0 b0] e0 show ?thesis by simp
  qed
  from 1 2 show ?thesis by blast
qed

subsection \<open>C8: the return after the loop\<close>

text \<open>
  C8. The claim calls the \<^verbatim>\<open>return FAILURE\<close> after the loop of \<^verbatim>\<open>_sequence\<close> unreachable
  for every valid construction. For a non-empty list it is
  (\<open>valid_thresholds_always_return\<close> above). For the empty list the derived thresholds
  are \<open>0\<close> and \<open>1\<close>, the loop has nothing to iterate over and ends without returning, and
  the line marked \<^verbatim>\<open># should be never reached\<close> is what returns.
\<close>

theorem empty_sequence_reaches_post_loop_return:
  "sequence ([] :: 's node list) None = Inr (node_metadata (sequence_inner [] 0 1))
   \<and> for_children ([] :: 's node list) 0 1 0 0 [] w = (None, w)
   \<and> sequence_inner ([] :: 's node list) 0 1 w = (Return FAILURE, w)"
  by (simp add: sequence_def sequence_inner_def)

subsection \<open>C10: an error of the child does not end the loop\<close>

text \<open>
  C10. In the loop of \<^verbatim>\<open>repeat_until\<close>, when the condition check succeeds and the child
  then raises \<open>e\<close>, the loop goes on from the state the child left with
  \<^verbatim>\<open>ControlFlowException(e)\<close> as the recorded result, whatever was recorded before. If the
  next check fails, that captured error is what is returned; if it succeeds, the loop
  goes on with the result of the next evaluation of the child, and the captured error
  is gone.
\<close>

theorem repeat_until_child_error_overwritten:
  fixes condition child :: "'s node"
  assumes "condition w = (Return c, w1)" and "truthy c" and "child w1 = (Raise e, w2)"
  shows "while_condition_eval (is_success condition) child result w
       = while_condition_eval (is_success condition) child (ControlFlowException e) w2
   \<and> (condition w2 = (Return c2, w3) \<and> \<not> truthy c2 \<longrightarrow>
        while_condition_eval (is_success condition) child result w
        = Some (Return (ControlFlowException e), w3))
   \<and> (condition w2 = (Return c2, w3) \<and> truthy c2 \<longrightarrow>
        while_condition_eval (is_success condition) child result w
        = while_condition_eval (is_success condition) child
            (fst (try_await child w3)) (snd (try_await child w3)))"
proof -
  have t: "try_await child w1 = (ControlFlowException e, w2)"
    using assms(3) by (simp add: try_await_def)
  have 1: "while_condition_eval (is_success condition) child result w
       = while_condition_eval (is_success condition) child (ControlFlowException e) w2"
    using while_step [of condition w c w1 child result] assms(1,2) by (simp add: t)
  have 2: "while_condition_eval (is_success condition) child (ControlFlowException e) w2
        = Some (Return (ControlFlowException e), w3)"
    if "condition w2 = (Return c2, w3)" "\<not> truthy c2"
    using while_stop [of condition w2 c2 w3 child "ControlFlowException e"] that by simp
  have 3: "while_condition_eval (is_success condition) child (ControlFlowException e) w2
        = while_condition_eval (is_success condition) child
            (fst (try_await child w3)) (snd (try_await child w3))"
    if "condition w2 = (Return c2, w3)" "truthy c2"
    using while_step [of condition w2 c2 w3 child "ControlFlowException e"] that by simp
  from 1 2 3 show ?thesis by simp
qed

theorem repeat_until_child_error_overwritten_witness:
  "repeat_until (counter_below 1) raise_at_zero 0
     = Some (Return (ControlFlowException (Exception ''boom'')), 1)
   \<and> repeat_until (counter_below 2) raise_at_zero 0 = Some (Return (PyInt 1), 2)"
proof -
  have c: "counter_below 1 0 = (Return (PyBool True), 0)" "counter_below 2 0 = (Return (PyBool True), 0)"
      "truthy (PyBool True)"
    by (simp_all add: counter_below_def)
  have r: "raise_at_zero 0 = (Raise (Exception ''boom''), 1)"
    by (simp add: raise_at_zero_def)
  have stop1: "counter_below 1 1 = (Return (PyBool False), 1) \<and> \<not> truthy (PyBool False)"
    by (simp add: counter_below_def)
  have go2: "counter_below 2 1 = (Return (PyBool True), 1) \<and> truthy (PyBool True)"
    by (simp add: counter_below_def)
  have 1: "repeat_until (counter_below 1) raise_at_zero 0
     = Some (Return (ControlFlowException (Exception ''boom'')), 1)"
    unfolding repeat_until_unfold
    using repeat_until_child_error_overwritten [where condition = "counter_below 1" and child = raise_at_zero and w = 0
        and c = "PyBool True" and ?w1.0 = 0 and e = "Exception ''boom''" and ?w2.0 = 1
        and ?c2.0 = "PyBool False" and ?w3.0 = 1 and result = FAILURE] c(1) c(3) r stop1
    by blast
  have "while_condition_eval (is_success (counter_below 2)) raise_at_zero FAILURE 0
      = while_condition_eval (is_success (counter_below 2)) raise_at_zero
          (fst (try_await raise_at_zero 1)) (snd (try_await raise_at_zero 1))"
    using repeat_until_child_error_overwritten [where condition = "counter_below 2" and child = raise_at_zero and w = 0
        and c = "PyBool True" and ?w1.0 = 0 and e = "Exception ''boom''" and ?w2.0 = 1
        and ?c2.0 = "PyBool True" and ?w3.0 = 1 and result = FAILURE] c(2) c(3) r go2
    by blast
  also have "\<dots> = while_condition_eval (is_success (counter_below 2)) raise_at_zero (PyInt 1) 2"
    by (simp add: try_await_def raise_at_zero_def numeral_2_eq_2)
  also have "\<dots> = Some (Return (PyInt 1), 2)"
    using while_stop [of "counter_below 2" 2 "PyBool False" 2 raise_at_zero "PyInt 1"]
    by (simp add: counter_below_def)
  finally have 2: "repeat_until (counter_below 2) raise_at_zero 0 = Some (Return (PyInt 1), 2)"
    unfolding repeat_until_unfold .
  from 1 2 show ?thesis by blast
qed

end
